theory Spec2Isabelle
  imports Main
begin

section \<open>The data model of chat.ts\<close>

text \<open>
  The engine of \<^verbatim>\<open>src/chat.ts\<close> is the class \<^verbatim>\<open>AppOnFirebase\<close> together with the
  class \<^verbatim>\<open>RoomImpl\<close>. Both are mutable objects that are driven by callbacks: the
  store's \<^verbatim>\<open>child_added\<close> and \<^verbatim>\<open>child_removed\<close> notifications, the auth stream,
  the completion of writes and fetches, and the microtask that delivers a snapshot to the
  listener. The embedding passes the whole engine as one record and makes every callback
  a function on it.

  Field names follow the source. Where two interfaces of the source share a field name
  (\<^verbatim>\<open>nickname\<close>, \<^verbatim>\<open>role\<close>, \<^verbatim>\<open>name\<close>) the record of the remote shape carries a prefix,
  and the fields \<^verbatim>\<open>from\<close> and \<^verbatim>\<open>when\<close> of a message are prefixed because both words
  are reserved in Isabelle.
\<close>

text \<open>The type \<^verbatim>\<open>Role\<close> (line 49); \<open>NoRole\<close> is the empty string.\<close>

datatype Role = Owner | Applicant | Member | Banned | NoRole

text \<open>The remote shapes \<^verbatim>\<open>MemberData\<close> (lines 50-53) and \<^verbatim>\<open>RoomData\<close> (lines 44-47).\<close>

record MemberData =
  md_nickname :: string
  md_role :: Role

record RoomData =
  rd_private :: bool
  rd_name :: string

text \<open>The interface \<^verbatim>\<open>Message\<close> (lines 35-39).\<close>

record Message =
  msg_from :: string
  msg_when :: int
  msg_message :: string

text \<open>
  What the engine reads of a \<^verbatim>\<open>firebase.User\<close>: its \<^verbatim>\<open>uid\<close> and its
  \<^verbatim>\<open>displayName\<close>, which may be null.
\<close>

record User =
  user_uid :: string
  displayName :: "string option"

text \<open>
  References into the store, as the source builds them with \<^verbatim>\<open>ref\<close> and
  \<^verbatim>\<open>child\<close>: \<^verbatim>\<open>rooms/<rid>\<close>, \<^verbatim>\<open>members/<rid>\<close>, \<^verbatim>\<open>members/<rid>/<uid>\<close> and
  \<^verbatim>\<open>messages/<rid>\<close>. The last component of a member reference is whatever
  \<^verbatim>\<open>getMemberRef\<close> passes to \<^verbatim>\<open>child\<close>; with nobody signed in that is the
  undefined \<^verbatim>\<open>this.uid\<close>, written \<open>None\<close>. What the store client does with such a
  reference is not part of chat.ts.
\<close>

datatype ref =
    RoomRef string
  | MembersRef string
  | MemberRef string "string option"
  | MessagesRef string

text \<open>
  The values the engine writes: \<^verbatim>\<open>null\<close>, a \<^verbatim>\<open>RoomData\<close>, a \<^verbatim>\<open>MemberData\<close>, and
  the object of \<^verbatim>\<open>sendMessage\<close> (its \<^verbatim>\<open>from\<close> is \<^verbatim>\<open>this.app.uid\<close>, its \<^verbatim>\<open>when\<close>
  the server's timestamp placeholder).
\<close>

datatype payload =
    Null
  | RoomValue RoomData
  | MemberValue MemberData
  | NewMessage "string option" string

datatype operation = SetOp payload | PushOp payload | OnceOp

text \<open>
  What the source attaches to a call on the store. \<open>NoHandler\<close>: the returned promise
  is dropped (lines 238, 242, 326, 333). \<open>RoomInfoWritten\<close> and \<open>OwnerWritten\<close>: the two
  \<^verbatim>\<open>then\<close> callbacks of \<^verbatim>\<open>createRoom\<close> (lines 219 and 226), both under the
  \<^verbatim>\<open>catch\<close> of line 233. \<open>RoomDeleted\<close>: the \<^verbatim>\<open>then\<close> of line 241 under the
  \<^verbatim>\<open>catch\<close> of line 244. \<open>MembershipFetched r\<close>: the \<^verbatim>\<open>once\<close> callback of room
  \<open>r\<close> (line 300) with the \<^verbatim>\<open>catch\<close> of line 310. \<open>AuthorFetched r i\<close>: the
  \<^verbatim>\<open>once\<close> callback of \<^verbatim>\<open>ensureMessage\<close> (line 363), whose closure holds room
  \<open>r\<close> and the stored message, the \<open>i\<close>-th of the room's log; no \<^verbatim>\<open>catch\<close> and no
  failure callback is attached to it.
\<close>

datatype continuation =
    NoHandler
  | RoomInfoWritten string
  | OwnerWritten string
  | RoomDeleted string
  | MembershipFetched nat
  | AuthorFetched nat nat

record request =
  req_ref :: ref
  req_op :: operation
  req_cont :: continuation

text \<open>
  How the store settles a call: it resolves (a \<^verbatim>\<open>once\<close> with the record at the
  path, \<open>None\<close> when there is none, so that \<^verbatim>\<open>snapshot.val()\<close> is null), or it rejects
  with an error whose \<^verbatim>\<open>message\<close> is the string.
\<close>

datatype outcome = Resolved "MemberData option" | Rejected string

text \<open>
  Exceptions: \<open>Error m\<close> is \<^verbatim>\<open>new Error(m)\<close>; \<open>TypeError\<close> is what reading a property
  of null raises.
\<close>

datatype error = Error string | TypeError

text \<open>
  The class \<^verbatim>\<open>RoomImpl\<close> (lines 273-282). A room is an object with identity: the
  engine compares rooms with \<^verbatim>\<open>===\<close>, so the embedding keeps all rooms ever
  constructed in a heap and a room reference is an index into it.
  \<open>messageQuery\<close> is \<open>None\<close> while the field is undefined.
\<close>

record RoomImpl =
  name :: string
  rid :: string
  role :: Role
  room_nickname :: string
  messages :: "Message list"
  hasMessage :: "string \<rightharpoonup> bool"
  nicknameOf :: "string \<rightharpoonup> string"
  messageQuery :: "ref option"

text \<open>The interface \<^verbatim>\<open>AppState\<close> (lines 8-13).\<close>

record AppState =
  nickname :: string
  rooms :: "nat list"
  currentRoom :: "nat option"
  latestError :: string

text \<open>The only kind of microtask the engine schedules: the callback of lines 164-169.\<close>

datatype microtask = Notify

text \<open>
  The class \<^verbatim>\<open>AppOnFirebase\<close> (lines 58-65): \<open>state\<close>, \<open>uid\<close> (\<open>None\<close> after
  \<^verbatim>\<open>delete this.uid\<close>), \<open>listener\<close> (\<open>None\<close> after \<^verbatim>\<open>delete this.listener\<close>; a
  listener is named by a number) and \<open>pendingUpdate\<close>. The other fields are the
  engine's surroundings: \<open>heap\<close> holds the rooms constructed so far, \<open>microtasks\<close>
  is the queue of scheduled microtasks, \<open>requests\<close> lists every call issued to the
  store in order, \<open>settled\<close> the positions of those the store has answered, and
  \<open>calls\<close> records each invocation of a listener with the snapshot it was given.
\<close>

record AppOnFirebase =
  state :: AppState
  uid :: "string option"
  listener :: "nat option"
  pendingUpdate :: bool
  heap :: "RoomImpl list"
  microtasks :: "microtask list"
  requests :: "request list"
  settled :: "nat list"
  calls :: "(nat \<times> AppState) list"

text \<open>The engine once the constructor has run (lines 137-142).\<close>

definition init_app :: AppOnFirebase where
  "init_app =
     \<lparr>state = \<lparr>nickname = ''anonymous'', rooms = [], currentRoom = None, latestError = ''''\<rparr>,
      uid = None, listener = None, pendingUpdate = False,
      heap = [], microtasks = [], requests = [], settled = [], calls = []\<rparr>"

section \<open>The operations of AppOnFirebase\<close>

text \<open>JavaScript's truth value of a string that may be undefined or null.\<close>

definition truthy :: "string option \<Rightarrow> bool" where
  "truthy v = (case v of None \<Rightarrow> False | Some s \<Rightarrow> s \<noteq> [])"

text \<open>A call on the store, recorded with what the source attaches to it.\<close>

definition issue :: "ref \<Rightarrow> operation \<Rightarrow> continuation \<Rightarrow> AppOnFirebase \<Rightarrow> AppOnFirebase" where
  "issue p opn k a = a\<lparr>requests := requests a @ [\<lparr>req_ref = p, req_op = opn, req_cont = k\<rparr>]\<rparr>"

text \<open>A mutation of the room object behind a reference.\<close>

definition update_room :: "nat \<Rightarrow> (RoomImpl \<Rightarrow> RoomImpl) \<Rightarrow> AppOnFirebase \<Rightarrow> AppOnFirebase" where
  "update_room r f a = a\<lparr>heap := (heap a)[r := f (heap a ! r)]\<rparr>"

text \<open>\<^verbatim>\<open>getState\<close> (lines 154-156): a copy of the fields of \<open>state\<close>.\<close>

definition getState :: "AppOnFirebase \<Rightarrow> AppState" where
  "getState a = state a"

text \<open>\<^verbatim>\<open>updateListeners\<close> (lines 158-170), up to the scheduling of the callback.\<close>

definition updateListeners :: "AppOnFirebase \<Rightarrow> AppOnFirebase" where
  "updateListeners a =
     (if pendingUpdate a then a
      else a\<lparr>pendingUpdate := True, microtasks := microtasks a @ [Notify]\<rparr>)"

text \<open>The scheduled callback itself (lines 164-169).\<close>

definition notify :: "AppOnFirebase \<Rightarrow> AppOnFirebase" where
  "notify a =
     (let a1 = a\<lparr>pendingUpdate := False\<rparr>
      in case listener a1 of
           None \<Rightarrow> a1
         | Some l \<Rightarrow> a1\<lparr>calls := calls a1 @ [(l, getState a1)]\<rparr>)"

text \<open>
  The end of a scheduling tick: the microtasks queued during the synchronous work run in
  order. The callback of \<^verbatim>\<open>updateListeners\<close> queues nothing itself.
\<close>

fun run_tasks :: "microtask list \<Rightarrow> AppOnFirebase \<Rightarrow> AppOnFirebase" where
  "run_tasks [] a = a"
| "run_tasks (Notify # ts) a = run_tasks ts (notify a)"

definition tick :: "AppOnFirebase \<Rightarrow> AppOnFirebase" where
  "tick a = run_tasks (microtasks a) (a\<lparr>microtasks := []\<rparr>)"

text \<open>\<^verbatim>\<open>listen\<close> (lines 146-152) and the function it returns.\<close>

definition listen :: "nat \<Rightarrow> AppOnFirebase \<Rightarrow> AppOnFirebase" where
  "listen l a = updateListeners (a\<lparr>listener := Some l\<rparr>)"

definition unlisten :: "AppOnFirebase \<Rightarrow> AppOnFirebase" where
  "unlisten a = a\<lparr>listener := None\<rparr>"

text \<open>\<^verbatim>\<open>setNickname\<close> (lines 185-188).\<close>

definition setNickname :: "string \<Rightarrow> AppOnFirebase \<Rightarrow> AppOnFirebase" where
  "setNickname n a = updateListeners (a\<lparr>state := (state a)\<lparr>nickname := n\<rparr>\<rparr>)"

text \<open>\<^verbatim>\<open>displayError\<close> (lines 266-270), given the error's \<^verbatim>\<open>message\<close>.\<close>

definition displayError :: "string \<Rightarrow> AppOnFirebase \<Rightarrow> AppOnFirebase" where
  "displayError m a = updateListeners (a\<lparr>state := (state a)\<lparr>latestError := m\<rparr>\<rparr>)"

text \<open>\<^verbatim>\<open>ensureSignedIn\<close> (lines 260-264); the message is spelled as in the source.\<close>

definition ensureSignedIn :: "string \<Rightarrow> AppOnFirebase \<Rightarrow> error + unit" where
  "ensureSignedIn reason a =
     (if \<not> truthy (uid a) then Inl (Error (''Must be siged in to '' @ reason @ ''.''))
      else Inr ())"

text \<open>\<^verbatim>\<open>getMemberRef\<close> (lines 249-254) and \<^verbatim>\<open>getMessagesRef\<close> (lines 256-258).\<close>

definition getMemberRef :: "AppOnFirebase \<Rightarrow> string \<Rightarrow> string option \<Rightarrow> ref" where
  "getMemberRef a k u = MemberRef k (if \<not> truthy u then uid a else u)"

definition getMessagesRef :: "string \<Rightarrow> ref" where
  "getMessagesRef k = MessagesRef k"

text \<open>\<^verbatim>\<open>findRoom\<close> (lines 199-206): the first room of \<open>rooms\<close> with the given id.\<close>

fun findRoom_loop :: "RoomImpl list \<Rightarrow> string \<Rightarrow> nat list \<Rightarrow> nat option" where
  "findRoom_loop h k [] = None"
| "findRoom_loop h k (r # rs) = (if rid (h ! r) = k then Some r else findRoom_loop h k rs)"

definition findRoom :: "string \<Rightarrow> AppOnFirebase \<Rightarrow> nat option" where
  "findRoom k a = findRoom_loop (heap a) k (rooms (state a))"

section \<open>The operations of RoomImpl\<close>

text \<open>\<^verbatim>\<open>setUnknownMembership\<close> (lines 314-317).\<close>

definition setUnknownMembership :: "RoomImpl \<Rightarrow> RoomImpl" where
  "setUnknownMembership rm = rm\<lparr>role := NoRole, room_nickname := ''unknown''\<rparr>"

text \<open>
  The constructor (lines 284-290). The subscription to the auth stream that it makes
  (line 292) is the callback \<open>roomUserChanged\<close> below.
\<close>

definition new_RoomImpl :: "string \<Rightarrow> RoomData \<Rightarrow> RoomImpl" where
  "new_RoomImpl k info =
     setUnknownMembership
       \<lparr>name = rd_name info, rid = k, role = NoRole, room_nickname = [],
        messages = [], hasMessage = Map.empty, nicknameOf = Map.empty,
        messageQuery = None\<rparr>"

text \<open>\<^verbatim>\<open>ensureMember\<close> (lines 319-328).\<close>

definition ensureMember :: "nat \<Rightarrow> AppOnFirebase \<Rightarrow> AppOnFirebase" where
  "ensureMember r a =
     (if role (heap a ! r) = NoRole then
        issue (getMemberRef a (rid (heap a ! r)) None)
          (SetOp (MemberValue \<lparr>md_nickname = nickname (state a), md_role = Member\<rparr>))
          NoHandler a
      else a)"

text \<open>\<^verbatim>\<open>listenForMessages\<close> (lines 341-351).\<close>

definition listenForMessages :: "nat \<Rightarrow> AppOnFirebase \<Rightarrow> AppOnFirebase" where
  "listenForMessages r a =
     (case messageQuery (heap a ! r) of
        Some q \<Rightarrow> a
      | None \<Rightarrow>
          update_room r (\<lambda>rm. rm\<lparr>messageQuery := Some (getMessagesRef (rid rm))\<rparr>) a)"

text \<open>
  \<^verbatim>\<open>sendMessage\<close> (lines 330-339). The exception of \<^verbatim>\<open>ensureSignedIn\<close> leaves
  before anything is changed, so \<open>Inl\<close> carries the error alone.
\<close>

definition sendMessage :: "nat \<Rightarrow> string \<Rightarrow> AppOnFirebase \<Rightarrow> error + AppOnFirebase" where
  "sendMessage r body a =
     (case ensureSignedIn ''send a message'' a of
        Inl e \<Rightarrow> Inl e
      | Inr u \<Rightarrow>
          Inr (issue (getMessagesRef (rid (heap a ! r)))
                 (PushOp (NewMessage (uid a) body)) NoHandler a))"

text \<open>
  \<^verbatim>\<open>addMessage\<close> (lines 374-378). The message it returns is the one it pushed, the
  last of the log.
\<close>

definition addMessage :: "nat \<Rightarrow> string \<Rightarrow> Message \<Rightarrow> AppOnFirebase \<Rightarrow> AppOnFirebase" where
  "addMessage r mid m a =
     update_room r
       (\<lambda>rm. rm\<lparr>messages := messages rm @ [m], hasMessage := (hasMessage rm)(mid \<mapsto> True)\<rparr>) a"

text \<open>The truth value of \<^verbatim>\<open>this.hasMessage[mid]\<close> and of \<^verbatim>\<open>this.nicknameOf[uid]\<close>.\<close>

definition seen :: "RoomImpl \<Rightarrow> string \<Rightarrow> bool" where
  "seen rm mid = (case hasMessage rm mid of None \<Rightarrow> False | Some b \<Rightarrow> b)"

definition cached :: "RoomImpl \<Rightarrow> string \<Rightarrow> string option" where
  "cached rm u =
     (case nicknameOf rm u of None \<Rightarrow> None | Some n \<Rightarrow> if n = [] then None else Some n)"

text \<open>
  \<^verbatim>\<open>ensureMessage\<close> (lines 353-372), up to the \<^verbatim>\<open>once\<close> call. \<open>stored\<close> is the
  position of \<^verbatim>\<open>storedMessage\<close> in the log.
\<close>

definition ensureMessage :: "nat \<Rightarrow> string \<Rightarrow> Message \<Rightarrow> AppOnFirebase \<Rightarrow> AppOnFirebase" where
  "ensureMessage r mid m a =
     (if seen (heap a ! r) mid then a
      else
        let a1 = addMessage r mid m a;
            stored = length (messages (heap a1 ! r)) - 1
        in case cached (heap a1 ! r) (msg_from m) of
             Some n \<Rightarrow>
               updateListeners
                 (update_room r
                    (\<lambda>rm. rm\<lparr>messages :=
                       (messages rm)[stored := (messages rm ! stored)\<lparr>msg_from := n\<rparr>]\<rparr>) a1)
           | None \<Rightarrow>
               issue (getMemberRef a1 (rid (heap a1 ! r)) (Some (msg_from m))) OnceOp
                 (AuthorFetched r stored) a1)"

text \<open>
  The callback that \<^verbatim>\<open>ensureMessage\<close> passes to \<^verbatim>\<open>once\<close> (lines 363-370), for the
  stored message at position \<open>i\<close> of room \<open>r\<close>. \<^verbatim>\<open>message\<close> and \<^verbatim>\<open>storedMessage\<close>
  are the same object. Reading \<^verbatim>\<open>member.nickname\<close> of a null \<^verbatim>\<open>member\<close> raises
  before the assignment of line 366 takes place.
\<close>

definition authorFetched :: "nat \<Rightarrow> nat \<Rightarrow> MemberData option \<Rightarrow> AppOnFirebase \<Rightarrow> error + AppOnFirebase" where
  "authorFetched r i member a =
     (case member of
        None \<Rightarrow> Inl TypeError
      | Some md \<Rightarrow>
          Inr (updateListeners
                 (update_room r
                    (\<lambda>rm. rm\<lparr>nicknameOf := (nicknameOf rm)(msg_from (messages rm ! i) \<mapsto> md_nickname md),
                             messages := (messages rm)[i := (messages rm ! i)\<lparr>msg_from := md_nickname md\<rparr>]\<rparr>)
                    a)))"

text \<open>The room's callback on the auth stream (lines 292-299).\<close>

definition roomUserChanged :: "nat \<Rightarrow> User option \<Rightarrow> AppOnFirebase \<Rightarrow> AppOnFirebase" where
  "roomUserChanged r user a =
     (case user of
        None \<Rightarrow> updateListeners (update_room r setUnknownMembership a)
      | Some u \<Rightarrow>
          issue (getMemberRef a (rid (heap a ! r)) (Some (user_uid u))) OnceOp
            (MembershipFetched r) a)"

text \<open>The callback of that fetch (lines 300-309).\<close>

definition membershipFetched :: "nat \<Rightarrow> MemberData option \<Rightarrow> AppOnFirebase \<Rightarrow> AppOnFirebase" where
  "membershipFetched r member a =
     updateListeners
       (case member of
          Some md \<Rightarrow> update_room r (\<lambda>rm. rm\<lparr>role := md_role md, room_nickname := md_nickname md\<rparr>) a
        | None \<Rightarrow> update_room r setUnknownMembership a)"

section \<open>Rooms: selection, insertion, removal, creation, deletion\<close>

text \<open>\<^verbatim>\<open>selectRoom\<close> (lines 190-197); \<open>None\<close> is a null argument.\<close>

definition selectRoom :: "nat option \<Rightarrow> AppOnFirebase \<Rightarrow> AppOnFirebase" where
  "selectRoom room a =
     (case room of
        None \<Rightarrow> a
      | Some r \<Rightarrow>
          if Some r \<noteq> currentRoom (state a) then
            updateListeners
              (listenForMessages r
                 (ensureMember r (a\<lparr>state := (state a)\<lparr>currentRoom := Some r\<rparr>\<rparr>)))
          else a)"

text \<open>The \<^verbatim>\<open>child_added\<close> handler of \<^verbatim>\<open>rooms\<close> (lines 101-113).\<close>

definition roomAdded :: "string \<Rightarrow> RoomData \<Rightarrow> AppOnFirebase \<Rightarrow> AppOnFirebase" where
  "roomAdded k info a =
     updateListeners
       (case findRoom k a of
          None \<Rightarrow>
            a\<lparr>heap := heap a @ [new_RoomImpl k info],
              state := (state a)\<lparr>rooms := rooms (state a) @ [length (heap a)]\<rparr>\<rparr>
        | Some r \<Rightarrow> a)"

text \<open>
  The loop of lines 126-131: \<open>Some\<close> of the spliced list when the loop returns from the
  handler, \<open>None\<close> when it runs to its end.
\<close>

function removeLoop :: "nat \<Rightarrow> nat list \<Rightarrow> nat \<Rightarrow> nat list option" where
  "removeLoop i rs r =
     (if i < length rs then
        (if rs ! i = r then Some (take i rs @ drop (Suc i) rs)
         else removeLoop (Suc i) rs r)
      else None)"
  by pat_completeness auto
termination
  by (relation "measure (\<lambda>(i, rs, r). length rs - i)") auto

declare removeLoop.simps [simp del]

text \<open>The \<^verbatim>\<open>child_removed\<close> handler of \<^verbatim>\<open>rooms\<close> (lines 116-135).\<close>

definition roomRemoved :: "string \<Rightarrow> AppOnFirebase \<Rightarrow> AppOnFirebase" where
  "roomRemoved k a =
     (case findRoom k a of
        None \<Rightarrow> a
      | Some r \<Rightarrow>
          let a1 = (if currentRoom (state a) = Some r
                    then a\<lparr>state := (state a)\<lparr>currentRoom := None\<rparr>\<rparr> else a)
          in (case removeLoop 0 (rooms (state a1)) r of
                Some rs \<Rightarrow> a1\<lparr>state := (state a1)\<lparr>rooms := rs\<rparr>\<rparr>
              | None \<Rightarrow> updateListeners a1))"

text \<open>
  \<^verbatim>\<open>createRoom\<close> (lines 208-218), up to the first write; \<open>key\<close> is the key that
  \<^verbatim>\<open>push()\<close> made for the new room.
\<close>

definition createRoom :: "string \<Rightarrow> string \<Rightarrow> AppOnFirebase \<Rightarrow> error + AppOnFirebase" where
  "createRoom n key a =
     (case ensureSignedIn ''create a room'' a of
        Inl e \<Rightarrow> Inl e
      | Inr u \<Rightarrow>
          Inr (issue (RoomRef key) (SetOp (RoomValue \<lparr>rd_private = False, rd_name = n\<rparr>))
                 (RoomInfoWritten key) a))"

text \<open>\<^verbatim>\<open>deleteRoom\<close> (lines 236-240), up to the write that deletes the room record.\<close>

definition deleteRoom :: "nat \<Rightarrow> AppOnFirebase \<Rightarrow> AppOnFirebase" where
  "deleteRoom r a =
     issue (RoomRef (rid (heap a ! r))) (SetOp Null) (RoomDeleted (rid (heap a ! r)))
       (issue (getMessagesRef (rid (heap a ! r))) (SetOp Null) NoHandler a)"

text \<open>The engine's callback on the auth stream (lines 87-98).\<close>

definition userChanged :: "User option \<Rightarrow> AppOnFirebase \<Rightarrow> AppOnFirebase" where
  "userChanged user a =
     (case user of
        None \<Rightarrow> setNickname ''anonymous'' (a\<lparr>uid := None\<rparr>)
      | Some u \<Rightarrow>
          (case displayName u of
             None \<Rightarrow> a\<lparr>uid := Some (user_uid u)\<rparr>
           | Some d \<Rightarrow>
               if d \<noteq> [] then setNickname d (a\<lparr>uid := Some (user_uid u)\<rparr>)
               else a\<lparr>uid := Some (user_uid u)\<rparr>))"

section \<open>Settling a call on the store\<close>

text \<open>
  What runs when the store answers a call, by what the source attached to it. A rejected
  promise with nothing attached changes nothing in the engine. In \<^verbatim>\<open>createRoom\<close> the
  \<^verbatim>\<open>Error\<close> thrown at line 229 is caught by the \<^verbatim>\<open>catch\<close> of line 233. The only
  exception that leaves a callback is the one of \<open>authorFetched\<close>.
\<close>

fun settle :: "continuation \<Rightarrow> outcome \<Rightarrow> AppOnFirebase \<Rightarrow> error + AppOnFirebase" where
  "settle NoHandler out a = Inr a"
| "settle (RoomInfoWritten key) (Resolved v) a =
     Inr (issue (getMemberRef a key None)
            (SetOp (MemberValue \<lparr>md_nickname = nickname (state a), md_role = Owner\<rparr>))
            (OwnerWritten key) a)"
| "settle (RoomInfoWritten key) (Rejected m) a = Inr (displayError m a)"
| "settle (OwnerWritten key) (Resolved v) a =
     Inr (case findRoom key a of
            None \<Rightarrow> displayError (''Can't select room: '' @ key) a
          | Some r \<Rightarrow> selectRoom (Some r) a)"
| "settle (OwnerWritten key) (Rejected m) a = Inr (displayError m a)"
| "settle (RoomDeleted k) (Resolved v) a = Inr (issue (MembersRef k) (SetOp Null) NoHandler a)"
| "settle (RoomDeleted k) (Rejected m) a = Inr (displayError m a)"
| "settle (MembershipFetched r) (Resolved v) a = Inr (membershipFetched r v a)"
| "settle (MembershipFetched r) (Rejected m) a = Inr (displayError m a)"
| "settle (AuthorFetched r i) (Resolved v) a = authorFetched r i v a"
| "settle (AuthorFetched r i) (Rejected m) a = Inr a"

section \<open>Events\<close>

text \<open>
  Everything that can happen to the engine: the callbacks the surroundings invoke and
  the methods the user interface calls. \<open>CreateRoom n key\<close> carries the key that the
  store client generates. \<open>Microtask\<close> is the end of a scheduling tick.
  \<^verbatim>\<open>signIn\<close> and \<^verbatim>\<open>signOut\<close> (lines 172-183) only call the auth client; what
  reaches the engine of them is \<open>AuthStateChanged\<close>.
\<close>

datatype event =
    AuthStateChanged "User option"
  | RoomAuthStateChanged nat "User option"
  | RoomsChildAdded string RoomData
  | RoomsChildRemoved string
  | MessagesChildAdded nat string Message
  | Settled nat outcome
  | Microtask
  | WindowError string
  | Listen nat
  | Unlisten
  | SetNickname string
  | SelectRoom "nat option"
  | CreateRoom string string
  | DeleteRoom nat
  | SendMessage nat string

text \<open>
  The exception an event's handler raises, if any, and the engine as the handler leaves
  it. A method that raises does so before it changes anything.
\<close>

definition finish :: "AppOnFirebase \<Rightarrow> error + AppOnFirebase \<Rightarrow> error option \<times> AppOnFirebase" where
  "finish a res = (case res of Inl e \<Rightarrow> (Some e, a) | Inr a' \<Rightarrow> (None, a'))"

fun handle :: "event \<Rightarrow> AppOnFirebase \<Rightarrow> error option \<times> AppOnFirebase" where
  "handle (AuthStateChanged user) a = (None, userChanged user a)"
| "handle (RoomAuthStateChanged r user) a = (None, roomUserChanged r user a)"
| "handle (RoomsChildAdded k info) a = (None, roomAdded k info a)"
| "handle (RoomsChildRemoved k) a = (None, roomRemoved k a)"
| "handle (MessagesChildAdded r mid m) a = (None, ensureMessage r mid m a)"
| "handle (Settled i out) a =
     finish (a\<lparr>settled := i # settled a\<rparr>)
       (settle (req_cont (requests a ! i)) out (a\<lparr>settled := i # settled a\<rparr>))"
| "handle Microtask a = (None, tick a)"
| "handle (WindowError m) a = (None, displayError m a)"
| "handle (Listen l) a = (None, listen l a)"
| "handle Unlisten a = (None, unlisten a)"
| "handle (SetNickname n) a = (None, setNickname n a)"
| "handle (SelectRoom room) a = (None, selectRoom room a)"
| "handle (CreateRoom n key) a = finish a (createRoom n key a)"
| "handle (DeleteRoom r) a = (None, deleteRoom r a)"
| "handle (SendMessage r body) a = finish a (sendMessage r body a)"

definition apply_event :: "event \<Rightarrow> AppOnFirebase \<Rightarrow> AppOnFirebase" where
  "apply_event e a = snd (handle e a)"

text \<open>
  The events the surroundings can deliver in a given state: a room reference denotes a
  constructed room, message notifications reach only a room that subscribed to them, and
  the store answers each call it received once.
\<close>

fun possible :: "AppOnFirebase \<Rightarrow> event \<Rightarrow> bool" where
  "possible a (RoomAuthStateChanged r user) = (r < length (heap a))"
| "possible a (MessagesChildAdded r mid m) =
     (r < length (heap a) \<and> messageQuery (heap a ! r) \<noteq> None)"
| "possible a (Settled i out) = (i < length (requests a) \<and> i \<notin> set (settled a))"
| "possible a (SelectRoom (Some r)) = (r < length (heap a))"
| "possible a (DeleteRoom r) = (r < length (heap a))"
| "possible a (SendMessage r body) = (r < length (heap a))"
| "possible a e = True"

text \<open>
  The states the engine can reach from its initial state by events that satisfy a
  restriction \<open>P\<close> on top of being possible.
\<close>

inductive reachable_by :: "(AppOnFirebase \<Rightarrow> event \<Rightarrow> bool) \<Rightarrow> AppOnFirebase \<Rightarrow> bool"
  for P :: "AppOnFirebase \<Rightarrow> event \<Rightarrow> bool" where
  initial: "reachable_by P init_app"
| after: "reachable_by P a \<Longrightarrow> possible a e \<Longrightarrow> P a e \<Longrightarrow> reachable_by P (apply_event e a)"

definition any_event :: "AppOnFirebase \<Rightarrow> event \<Rightarrow> bool" where
  "any_event a e = True"

text \<open>A run of events, one after the other.\<close>

fun run :: "event list \<Rightarrow> AppOnFirebase \<Rightarrow> AppOnFirebase" where
  "run [] a = a"
| "run (e # es) a = run es (apply_event e a)"

section \<open>Vocabulary of the properties\<close>

text \<open>Ingesting a sequence of message notifications into room \<open>r\<close>, in order.\<close>

fun ingest :: "nat \<Rightarrow> (string \<times> Message) list \<Rightarrow> AppOnFirebase \<Rightarrow> AppOnFirebase" where
  "ingest r [] a = a"
| "ingest r (x # xs) a = ingest r xs (ensureMessage r (fst x) (snd x) a)"



text \<open>
  The queue and the flag of \<^verbatim>\<open>updateListeners\<close> agree: one callback is scheduled
  exactly while \<open>pendingUpdate\<close> is set.
\<close>

definition coalesced :: "AppOnFirebase \<Rightarrow> bool" where
  "coalesced a = (microtasks a = (if pendingUpdate a then [Notify] else []))"

text \<open>
  Synchronous work within one tick: a sequence of mutations of \<open>state\<close>, each followed
  by a call of \<^verbatim>\<open>updateListeners\<close>, as in \<^verbatim>\<open>setNickname\<close> and \<^verbatim>\<open>displayError\<close>.
\<close>

fun sync_work :: "(AppState \<Rightarrow> AppState) list \<Rightarrow> AppOnFirebase \<Rightarrow> AppOnFirebase" where
  "sync_work [] a = a"
| "sync_work (f # fs) a = sync_work fs (updateListeners (a\<lparr>state := f (state a)\<rparr>))"

text \<open>Two engines with the same room list, the same selection and the same room ids.\<close>

definition frame :: "AppOnFirebase \<Rightarrow> AppOnFirebase \<Rightarrow> bool" where
  "frame a a' =
     (rooms (state a') = rooms (state a) \<and> currentRoom (state a') = currentRoom (state a)
      \<and> map rid (heap a') = map rid (heap a))"

text \<open>The room list holds constructed rooms, no two of them with the same id.\<close>

definition registry_ok :: "AppOnFirebase \<Rightarrow> bool" where
  "registry_ok a =
     ((\<forall>r \<in> set (rooms (state a)). r < length (heap a))
      \<and> distinct (map (\<lambda>r. rid (heap a ! r)) (rooms (state a))))"

text \<open>The selected room, if there is one, is in the room list.\<close>

definition selection_in_rooms :: "AppOnFirebase \<Rightarrow> bool" where
  "selection_in_rooms a =
     (case currentRoom (state a) of None \<Rightarrow> True | Some r \<Rightarrow> r \<in> set (rooms (state a)))"

text \<open>The restriction on events under which \<^verbatim>\<open>selectRoom\<close> is only given listed rooms.\<close>

fun selects_registered :: "AppOnFirebase \<Rightarrow> event \<Rightarrow> bool" where
  "selects_registered a (SelectRoom (Some r)) = (r \<in> set (rooms (state a)))"
| "selects_registered a e = True"

text \<open>A run all of whose events are possible and satisfy the restriction when they occur.\<close>

fun admissible :: "(AppOnFirebase \<Rightarrow> event \<Rightarrow> bool) \<Rightarrow> event list \<Rightarrow> AppOnFirebase \<Rightarrow> bool" where
  "admissible P [] a = True"
| "admissible P (e # es) a = (possible a e \<and> P a e \<and> admissible P es (apply_event e a))"


subsection \<open>Scenarios\<close>

text \<open>A user, a room record and two messages of one author.\<close>

definition ann :: User where
  "ann = \<lparr>user_uid = ''u1'', displayName = Some ''ann''\<rparr>"

definition general :: RoomData where
  "general = \<lparr>rd_private = False, rd_name = ''general''\<rparr>"

definition hello :: Message where
  "hello = \<lparr>msg_from = ''u2'', msg_when = 1, msg_message = ''hello''\<rparr>"

definition again :: Message where
  "again = \<lparr>msg_from = ''u2'', msg_when = 2, msg_message = ''again''\<rparr>"

text \<open>Ann signs in, the room \<^verbatim>\<open>r1\<close> arrives and she selects it.\<close>

definition room_open :: "event list" where
  "room_open = [AuthStateChanged (Some ann), RoomsChildAdded ''r1'' general, SelectRoom (Some 0)]"

text \<open>
  A listener is registered, Ann signs in and the room \<^verbatim>\<open>r1\<close> arrives and is shown.
  The store then removes the room, and the user interface, which still holds the room
  object of the last snapshot, selects it.
\<close>

definition stale_selection :: "event list" where
  "stale_selection =
     [Listen 7, AuthStateChanged (Some ann), RoomsChildAdded ''r1'' general, Microtask,
      RoomsChildRemoved ''r1'', SelectRoom (Some 0), Microtask]"



text \<open>The room \<^verbatim>\<open>r1\<close> arrives and is shown to a listener while nobody is signed in.\<close>

definition signed_out_room :: "event list" where
  "signed_out_room = [Listen 7, RoomsChildAdded ''r1'' general, Microtask]"


section \<open>Facts about the operations\<close>

lemmas prim_defs = updateListeners_def issue_def update_room_def

subsection \<open>Looking a room up and splicing it out\<close>

lemma findRoom_loop_Some:
  "findRoom_loop h k rs = Some r \<Longrightarrow> r \<in> set rs \<and> rid (h ! r) = k"
  by (induction rs) (auto split: if_splits)

lemma findRoom_loop_None:
  "findRoom_loop h k rs = None \<longleftrightarrow> (\<forall>r \<in> set rs. rid (h ! r) \<noteq> k)"
  by (induction rs) auto

lemma findRoom_updateListeners: "findRoom k (updateListeners b) = findRoom k b"
  by (simp add: findRoom_def updateListeners_def)

lemma removeLoop_eq:
  "removeLoop i rs r =
     (if r \<in> set (drop i rs) then Some (take i rs @ remove1 r (drop i rs)) else None)"
proof (induction i rs r rule: removeLoop.induct)
  case (1 i rs r)
  show ?case
  proof (cases "i < length rs")
    case False
    then show ?thesis by (simp add: removeLoop.simps)
  next
    case True
    then have d: "drop i rs = rs ! i # drop (Suc i) rs"
      by (simp add: Cons_nth_drop_Suc)
    show ?thesis
    proof (cases "rs ! i = r")
      case True
      with \<open>i < length rs\<close> d show ?thesis
        by (subst removeLoop.simps) simp
    next
      case False
      with \<open>i < length rs\<close> d "1.IH" show ?thesis
        by (subst removeLoop.simps) (simp add: take_Suc_conv_app_nth)
    qed
  qed
qed

lemma removeLoop_found: "r \<in> set rs \<Longrightarrow> removeLoop 0 rs r = Some (remove1 r rs)"
  by (simp add: removeLoop_eq)

lemma roomRemoved_eq:
  "roomRemoved k a =
     (case findRoom k a of
        None \<Rightarrow> a
      | Some r \<Rightarrow>
          a\<lparr>state := (state a)\<lparr>currentRoom :=
               (if currentRoom (state a) = Some r then None else currentRoom (state a)),
             rooms := remove1 r (rooms (state a))\<rparr>\<rparr>)"
proof (cases "findRoom k a")
  case None
  then show ?thesis by (simp add: roomRemoved_def)
next
  case (Some r)
  then have "r \<in> set (rooms (state a))"
    by (auto simp: findRoom_def dest: findRoom_loop_Some)
  with Some show ?thesis
    by (simp add: roomRemoved_def removeLoop_found Let_def)
qed

lemma rid_new_RoomImpl [simp]: "rid (new_RoomImpl k info) = k"
  by (simp add: new_RoomImpl_def setUnknownMembership_def)

lemma findRoom_roomAdded: "\<exists>r. findRoom k (roomAdded k info a) = Some r"
proof (cases "findRoom k a")
  case (Some r)
  then show ?thesis by (simp add: roomAdded_def findRoom_updateListeners)
next
  case None
  let ?h = "heap a @ [new_RoomImpl k info]"
  from None have "findRoom k (roomAdded k info a) =
      findRoom_loop ?h k (rooms (state a) @ [length (heap a)])"
    by (simp add: roomAdded_def findRoom_updateListeners) (simp add: findRoom_def)
  moreover have "length (heap a) \<in> set (rooms (state a) @ [length (heap a)])" by simp
  moreover have "rid (?h ! length (heap a)) = k" by simp
  ultimately have "findRoom k (roomAdded k info a) \<noteq> None"
    by (metis findRoom_loop_None)
  then show ?thesis by auto
qed

lemma count_distinct_map:
  "distinct (map f xs) \<Longrightarrow> x \<in> set xs \<Longrightarrow> length (filter (\<lambda>y. f y = f x) xs) = 1"
proof (induction xs)
  case Nil
  then show ?case by simp
next
  case (Cons y ys)
  show ?case
  proof (cases "f y = f x")
    case True
    from Cons.prems(1) have "f y \<notin> f ` set ys" by simp
    with True have "\<forall>z \<in> set ys. f z \<noteq> f x" by (metis imageI)
    then have "filter (\<lambda>z. f z = f x) ys = []" by (simp add: filter_empty_conv)
    with True show ?thesis by simp
  next
    case False
    with Cons.prems have "x \<in> set ys" by auto
    with Cons.IH Cons.prems(1) False show ?thesis by simp
  qed
qed

subsection \<open>Ingestion\<close>

lemma length_heap_ensureMessage [simp]:
  "length (heap (ensureMessage r mid m a)) = length (heap a)"
  by (simp add: ensureMessage_def addMessage_def prim_defs Let_def split: option.splits)




lemma length_heap_ingest [simp]: "length (heap (ingest r xs a)) = length (heap a)"
  by (induction xs arbitrary: a) auto








subsection \<open>The notification queue\<close>

lemma sync_work_frame:
  "listener (sync_work fs a) = listener a \<and> calls (sync_work fs a) = calls a
   \<and> state (sync_work fs a) = fold (\<lambda>f st. f st) fs (state a)"
  by (induction fs arbitrary: a) (auto simp: updateListeners_def)

lemma coalesced_updateListeners:
  "coalesced a \<Longrightarrow> coalesced (updateListeners a) \<and> pendingUpdate (updateListeners a)"
  by (simp add: coalesced_def updateListeners_def)

lemma sync_work_coalesced:
  "coalesced a \<Longrightarrow> coalesced (sync_work fs a) \<and> (fs \<noteq> [] \<or> pendingUpdate a \<longrightarrow> pendingUpdate (sync_work fs a))"
proof (induction fs arbitrary: a)
  case Nil
  then show ?case by simp
next
  case (Cons f fs)
  let ?a = "updateListeners (a\<lparr>state := f (state a)\<rparr>)"
  have "coalesced (a\<lparr>state := f (state a)\<rparr>)" using Cons.prems by (simp add: coalesced_def)
  then have "coalesced ?a \<and> pendingUpdate ?a" by (rule coalesced_updateListeners)
  with Cons.IH[of ?a] show ?case by simp
qed

lemma tick_pending:
  "coalesced a \<Longrightarrow> pendingUpdate a \<Longrightarrow>
   tick a = (case listener a of None \<Rightarrow> a\<lparr>microtasks := [], pendingUpdate := False\<rparr>
      | Some l \<Rightarrow> a\<lparr>microtasks := [], pendingUpdate := False, calls := calls a @ [(l, state a)]\<rparr>)"
  by (simp add: coalesced_def tick_def notify_def getState_def split: option.splits)
































subsection \<open>Operations that leave the room list, the selection and the room ids alone\<close>

lemma frame_refl: "frame a a"
  by (simp add: frame_def)

lemma map_rid_update:
  "rid x = rid (h ! r) \<Longrightarrow> map rid (h[r := x]) = map rid h"
  by (cases "r < length h") (simp_all add: map_update list_update_same_conv list_update_beyond)

lemma frame_updateListeners: "frame a b \<Longrightarrow> frame a (updateListeners b)"
  by (simp add: frame_def updateListeners_def)

lemma frame_issue: "frame a b \<Longrightarrow> frame a (issue p opn k b)"
  by (simp add: frame_def issue_def)

lemma frame_update_room:
  "frame a b \<Longrightarrow> rid (f (heap b ! r)) = rid (heap b ! r) \<Longrightarrow> frame a (update_room r f b)"
  by (simp add: frame_def update_room_def map_rid_update)

lemma frame_nickname: "frame a b \<Longrightarrow> frame a (b\<lparr>state := (state b)\<lparr>nickname := n\<rparr>\<rparr>)"
  by (simp add: frame_def)

lemma frame_latestError: "frame a b \<Longrightarrow> frame a (b\<lparr>state := (state b)\<lparr>latestError := n\<rparr>\<rparr>)"
  by (simp add: frame_def)

lemma frame_uid: "frame a b \<Longrightarrow> frame a (b\<lparr>uid := u\<rparr>)"
  by (simp add: frame_def)

lemma frame_listener: "frame a b \<Longrightarrow> frame a (b\<lparr>listener := u\<rparr>)"
  by (simp add: frame_def)

lemma frame_settled: "frame a b \<Longrightarrow> frame a (b\<lparr>settled := u\<rparr>)"
  by (simp add: frame_def)

lemmas frame_steps = frame_refl frame_updateListeners frame_issue frame_update_room
  frame_nickname frame_latestError frame_uid frame_listener frame_settled

lemma frame_setNickname: "frame a b \<Longrightarrow> frame a (setNickname n b)"
  unfolding setNickname_def by (intro frame_steps)

lemma frame_displayError: "frame a b \<Longrightarrow> frame a (displayError m b)"
  unfolding displayError_def by (intro frame_steps)

lemma frame_ensureMember: "frame a b \<Longrightarrow> frame a (ensureMember r b)"
  unfolding ensureMember_def by (simp add: frame_steps)

lemma frame_listenForMessages: "frame a b \<Longrightarrow> frame a (listenForMessages r b)"
  unfolding listenForMessages_def by (simp add: frame_steps split: option.splits)

lemma frame_addMessage: "frame a b \<Longrightarrow> frame a (addMessage r mid m b)"
  unfolding addMessage_def by (simp add: frame_steps)

lemma frame_ensureMessage: "frame a b \<Longrightarrow> frame a (ensureMessage r mid m b)"
  unfolding ensureMessage_def Let_def
  by (simp add: frame_steps frame_addMessage split: option.splits)

lemma frame_authorFetched: "frame a b \<Longrightarrow> authorFetched r i v b = Inr a' \<Longrightarrow> frame a a'"
  unfolding authorFetched_def by (auto simp: frame_steps split: option.splits)

lemma frame_roomUserChanged: "frame a b \<Longrightarrow> frame a (roomUserChanged r user b)"
  unfolding roomUserChanged_def
  by (simp add: frame_steps setUnknownMembership_def split: option.splits)

lemma frame_membershipFetched: "frame a b \<Longrightarrow> frame a (membershipFetched r v b)"
  unfolding membershipFetched_def
  by (simp add: frame_steps setUnknownMembership_def split: option.splits)

lemma frame_userChanged: "frame a b \<Longrightarrow> frame a (userChanged user b)"
  unfolding userChanged_def
  by (simp add: frame_steps frame_setNickname split: option.splits)

lemma frame_deleteRoom: "frame a b \<Longrightarrow> frame a (deleteRoom r b)"
  unfolding deleteRoom_def by (intro frame_steps)

lemma frame_run_tasks: "frame a b \<Longrightarrow> frame a (run_tasks ts b)"
proof (induction ts arbitrary: b)
  case Nil
  then show ?case by simp
next
  case (Cons t ts)
  have "frame a (notify b)" using Cons.prems
    by (simp add: frame_def notify_def Let_def split: option.splits)
  with Cons.IH show ?case by (cases t) simp
qed

lemma frame_tick: "frame a b \<Longrightarrow> frame a (tick b)"
  unfolding tick_def by (rule frame_run_tasks) (simp add: frame_def)

lemma frame_listen: "frame a b \<Longrightarrow> frame a (listen l b)"
  unfolding listen_def by (intro frame_steps)

lemma frame_unlisten: "frame a b \<Longrightarrow> frame a (unlisten b)"
  unfolding unlisten_def by (intro frame_steps)

lemma frame_createRoom: "frame a b \<Longrightarrow> frame a (snd (finish b (createRoom n key b)))"
  by (simp add: createRoom_def finish_def frame_steps split: sum.splits)

lemma frame_sendMessage: "frame a b \<Longrightarrow> frame a (snd (finish b (sendMessage r body b)))"
  by (simp add: sendMessage_def finish_def frame_steps split: sum.splits)

lemma selectRoom_registry:
  "rooms (state (selectRoom room a)) = rooms (state a)
   \<and> map rid (heap (selectRoom room a)) = map rid (heap a)
   \<and> currentRoom (state (selectRoom room a)) =
        (case room of None \<Rightarrow> currentRoom (state a) | Some r \<Rightarrow> Some r)"
proof -
  have "frame (a\<lparr>state := (state a)\<lparr>currentRoom := Some r\<rparr>\<rparr>)
          (updateListeners (listenForMessages r
             (ensureMember r (a\<lparr>state := (state a)\<lparr>currentRoom := Some r\<rparr>\<rparr>))))" for r
    by (intro frame_steps frame_listenForMessages frame_ensureMember)
  then show ?thesis
    by (auto simp: selectRoom_def frame_def split: option.splits)
qed

subsection \<open>The room list and the selection along a run\<close>

lemma same_rids_registry_ok:
  assumes "rooms (state b) = rooms (state a)" and "map rid (heap b) = map rid (heap a)"
    and "registry_ok a"
  shows "registry_ok b"
proof -
  have l: "length (heap b) = length (heap a)" using assms(2) by (metis length_map)
  have n: "rid (heap b ! r) = rid (heap a ! r)" if "r < length (heap a)" for r
    using assms(2) that by (metis length_map nth_map)
  have e: "map (\<lambda>r. rid (heap b ! r)) (rooms (state a)) = map (\<lambda>r. rid (heap a ! r)) (rooms (state a))"
    using assms(3) n by (simp add: registry_ok_def)
  from assms(3) have "(\<forall>r \<in> set (rooms (state a)). r < length (heap a))
      \<and> distinct (map (\<lambda>r. rid (heap a ! r)) (rooms (state a)))"
    by (simp add: registry_ok_def)
  then show ?thesis unfolding registry_ok_def assms(1) l e .
qed

lemma frame_registry_ok: "frame a b \<Longrightarrow> registry_ok a \<Longrightarrow> registry_ok b"
  by (rule same_rids_registry_ok) (simp_all add: frame_def)

lemma frame_selection: "frame a b \<Longrightarrow> selection_in_rooms a \<Longrightarrow> selection_in_rooms b"
  by (auto simp: frame_def selection_in_rooms_def split: option.splits)

lemma registry_ok_roomRemoved: "registry_ok a \<Longrightarrow> registry_ok (roomRemoved k a)"
proof (cases "findRoom k a")
  case None
  assume "registry_ok a"
  with None show ?thesis by (simp add: roomRemoved_eq)
next
  case (Some r)
  assume ok: "registry_ok a"
  let ?f = "\<lambda>r. rid (heap a ! r)"
  from ok have d: "distinct (rooms (state a))" and i: "inj_on ?f (set (rooms (state a)))"
    by (simp_all add: registry_ok_def distinct_map)
  have "inj_on ?f (set (remove1 r (rooms (state a))))"
    by (rule inj_on_subset[OF i]) (rule set_remove1_subset)
  with d have "distinct (map ?f (remove1 r (rooms (state a))))"
    by (simp add: distinct_map)
  moreover have "\<forall>x \<in> set (remove1 r (rooms (state a))). x < length (heap a)"
    using ok by (auto simp: registry_ok_def dest: notin_set_remove1)
  ultimately show ?thesis using Some
    by (simp add: roomRemoved_eq registry_ok_def)
qed

lemma selection_roomRemoved: "selection_in_rooms a \<Longrightarrow> selection_in_rooms (roomRemoved k a)"
  by (auto simp: roomRemoved_eq selection_in_rooms_def split: option.splits)

lemma registry_ok_roomAdded: "registry_ok a \<Longrightarrow> registry_ok (roomAdded k info a)"
proof (cases "findRoom k a")
  case (Some r)
  assume "registry_ok a"
  with Some show ?thesis
    by (simp add: roomAdded_def frame_registry_ok[OF frame_updateListeners[OF frame_refl]])
next
  case None
  assume ok: "registry_ok a"
  let ?b = "a\<lparr>heap := heap a @ [new_RoomImpl k info],
              state := (state a)\<lparr>rooms := rooms (state a) @ [length (heap a)]\<rparr>\<rparr>"
  from None have fresh: "\<forall>r \<in> set (rooms (state a)). rid (heap a ! r) \<noteq> k"
    by (simp add: findRoom_def findRoom_loop_None)
  have old: "map (\<lambda>r. rid ((heap a @ [new_RoomImpl k info]) ! r)) (rooms (state a))
           = map (\<lambda>r. rid (heap a ! r)) (rooms (state a))"
    using ok by (simp add: registry_ok_def nth_append)
  have "registry_ok ?b"
  proof -
    have 1: "\<forall>r \<in> set (rooms (state ?b)). r < length (heap ?b)"
      using ok by (auto simp: registry_ok_def)
    have 2: "map (\<lambda>r. rid (heap ?b ! r)) (rooms (state ?b))
             = map (\<lambda>r. rid (heap a ! r)) (rooms (state a)) @ [k]"
      by (simp add: old)
    have "distinct (map (\<lambda>r. rid (heap a ! r)) (rooms (state a)) @ [k])"
      using ok fresh by (auto simp: registry_ok_def)
    with 1 2 show ?thesis by (simp only: registry_ok_def simp_thms)
  qed
  then have "registry_ok (updateListeners ?b)"
    by (rule frame_registry_ok[OF frame_updateListeners[OF frame_refl]])
  with None show ?thesis by (simp add: roomAdded_def)
qed

lemma selection_roomAdded: "selection_in_rooms a \<Longrightarrow> selection_in_rooms (roomAdded k info a)"
  by (auto simp: roomAdded_def updateListeners_def selection_in_rooms_def split: option.splits)

lemma registry_ok_selectRoom: "registry_ok a \<Longrightarrow> registry_ok (selectRoom room a)"
  by (rule same_rids_registry_ok) (simp_all add: selectRoom_registry)

lemma selection_selectRoom:
  "selection_in_rooms a \<Longrightarrow> (\<forall>r. room = Some r \<longrightarrow> r \<in> set (rooms (state a))) \<Longrightarrow>
   selection_in_rooms (selectRoom room a)"
  by (auto simp: selection_in_rooms_def selectRoom_registry split: option.splits)

lemma settle_cases:
  "snd (finish b (settle k out b)) = b
   \<or> frame b (snd (finish b (settle k out b)))
   \<or> (\<exists>key r. findRoom key b = Some r \<and> snd (finish b (settle k out b)) = selectRoom (Some r) b)"
proof (cases "(k, out, b)" rule: settle.cases)
  case (4 key v a)
  show ?thesis
  proof (cases "findRoom key b")
    case None
    with 4 show ?thesis by (simp add: finish_def frame_displayError[OF frame_refl])
  next
    case (Some r)
    with 4 have "findRoom key b = Some r \<and> snd (finish b (settle k out b)) = selectRoom (Some r) b"
      by (simp add: finish_def)
    then show ?thesis by blast
  qed
next
  case (10 r i v a)
  then show ?thesis
    by (cases "authorFetched r i v b")
       (auto simp: finish_def dest: frame_authorFetched[OF frame_refl])
qed (simp_all add: finish_def frame_displayError[OF frame_refl] frame_issue[OF frame_refl]
       frame_membershipFetched[OF frame_refl])

lemma registry_ok_settle: "registry_ok b \<Longrightarrow> registry_ok (snd (finish b (settle k out b)))"
  using settle_cases[of b k out]
  by (auto dest: frame_registry_ok simp: registry_ok_selectRoom)

lemma selection_settle:
  "selection_in_rooms b \<Longrightarrow> selection_in_rooms (snd (finish b (settle k out b)))"
proof -
  assume s: "selection_in_rooms b"
  have "selection_in_rooms (selectRoom (Some r) b)" if "findRoom key b = Some r" for key r
    using that s by (intro selection_selectRoom) (auto simp: findRoom_def dest: findRoom_loop_Some)
  with s settle_cases[of b k out] show ?thesis
    by (auto dest: frame_selection)
qed

lemma frame_apply_event:
  "(\<forall>k info. e \<noteq> RoomsChildAdded k info) \<Longrightarrow> (\<forall>k. e \<noteq> RoomsChildRemoved k) \<Longrightarrow>
   (\<forall>room. e \<noteq> SelectRoom room) \<Longrightarrow> (\<forall>i out. e \<noteq> Settled i out) \<Longrightarrow>
   frame a (apply_event e a)"
  by (cases e)
     (simp_all add: apply_event_def frame_refl frame_userChanged frame_roomUserChanged
        frame_ensureMessage frame_tick frame_displayError frame_listen frame_unlisten
        frame_setNickname frame_createRoom frame_deleteRoom frame_sendMessage)

lemma registry_ok_apply_event: "registry_ok a \<Longrightarrow> registry_ok (apply_event e a)"
proof (cases e)
  case (RoomsChildAdded k info)
  assume "registry_ok a"
  with RoomsChildAdded show ?thesis by (simp add: apply_event_def registry_ok_roomAdded)
next
  case (RoomsChildRemoved k)
  assume "registry_ok a"
  with RoomsChildRemoved show ?thesis by (simp add: apply_event_def registry_ok_roomRemoved)
next
  case (SelectRoom room)
  assume "registry_ok a"
  with SelectRoom show ?thesis by (simp add: apply_event_def registry_ok_selectRoom)
next
  case (Settled i out)
  assume "registry_ok a"
  then have "registry_ok (a\<lparr>settled := i # settled a\<rparr>)"
    by (rule frame_registry_ok[OF frame_settled[OF frame_refl]])
  with Settled show ?thesis by (simp add: apply_event_def registry_ok_settle)
qed (auto intro: frame_registry_ok[OF frame_apply_event])

lemma selection_apply_event:
  "selection_in_rooms a \<Longrightarrow> selects_registered a e \<Longrightarrow> selection_in_rooms (apply_event e a)"
proof (cases e)
  case (RoomsChildAdded k info)
  assume "selection_in_rooms a"
  with RoomsChildAdded show ?thesis by (simp add: apply_event_def selection_roomAdded)
next
  case (RoomsChildRemoved k)
  assume "selection_in_rooms a"
  with RoomsChildRemoved show ?thesis by (simp add: apply_event_def selection_roomRemoved)
next
  case (SelectRoom room)
  assume "selection_in_rooms a" and "selects_registered a e"
  with SelectRoom show ?thesis
    by (cases room) (simp_all add: apply_event_def selection_selectRoom)
next
  case (Settled i out)
  assume "selection_in_rooms a"
  then have "selection_in_rooms (a\<lparr>settled := i # settled a\<rparr>)"
    by (rule frame_selection[OF frame_settled[OF frame_refl]])
  with Settled show ?thesis by (simp add: apply_event_def selection_settle)
qed (auto intro: frame_selection[OF frame_apply_event])

lemma reachable_registry_ok: "reachable_by P a \<Longrightarrow> registry_ok a"
  by (induction rule: reachable_by.induct)
     (simp_all add: registry_ok_apply_event, simp add: registry_ok_def init_app_def)

lemma reachable_selection: "reachable_by selects_registered a \<Longrightarrow> selection_in_rooms a"
  by (induction rule: reachable_by.induct)
     (simp_all add: selection_apply_event, simp add: selection_in_rooms_def init_app_def)

lemma reachable_run:
  "reachable_by P a \<Longrightarrow> admissible P es a \<Longrightarrow> reachable_by P (run es a)"
  by (induction es arbitrary: a) (auto intro: reachable_by.after)


subsection \<open>An ingested message id stays ingested\<close>

































subsection \<open>Unfolding the operations on a concrete run\<close>

lemmas eval_defs = init_app_def apply_event_def finish_def userChanged_def roomUserChanged_def
  roomAdded_def roomRemoved_eq ensureMessage_def addMessage_def tick_def notify_def getState_def
  displayError_def listen_def unlisten_def setNickname_def selectRoom_def createRoom_def
  deleteRoom_def sendMessage_def ensureSignedIn_def ensureMember_def listenForMessages_def
  getMemberRef_def getMessagesRef_def findRoom_def new_RoomImpl_def setUnknownMembership_def
  truthy_def seen_def cached_def updateListeners_def issue_def update_room_def
  membershipFetched_def authorFetched_def any_event_def Let_def
  ann_def general_def hello_def again_def

section \<open>The claims\<close>

subsection \<open>C1: the selected room and the room list\<close>

text \<open>
  C1 says that in every reachable state the selected room, if present, is in the room
  list, that \<^verbatim>\<open>selectRoom\<close> does nothing for a room that is not listed, and that
  removing the selected room clears the selection. \<^verbatim>\<open>selectRoom\<close> (lines 190-197)
  tests only that its argument is not null and differs from the current selection; it
  never looks at the room list. In the run \<open>stale_selection\<close> a room that the store has
  removed is selected, and the listener is handed a snapshot whose selected room is not
  among its rooms.
\<close>

theorem stale_room_can_be_selected:
  "reachable_by any_event (run stale_selection init_app)
   \<and> map snd (calls (run stale_selection init_app)) =
       [\<lparr>nickname = ''ann'', rooms = [0], currentRoom = None, latestError = ''''\<rparr>,
        \<lparr>nickname = ''ann'', rooms = [], currentRoom = Some 0, latestError = ''''\<rparr>]
   \<and> currentRoom (state (run stale_selection init_app)) = Some 0
   \<and> rooms (state (run stale_selection init_app)) = []"
proof -
  have "admissible any_event stale_selection init_app"
    by (simp add: stale_selection_def eval_defs)
  then have "reachable_by any_event (run stale_selection init_app)"
    by (rule reachable_run[OF reachable_by.initial])
  then show ?thesis by (simp add: stale_selection_def eval_defs)
qed

text \<open>
  C1 as amended: in every state reached by events in which \<^verbatim>\<open>selectRoom\<close> is only
  given null or a room that is in the room list at that moment, the selected room, if
  present, is in the room list; \<^verbatim>\<open>selectRoom\<close> leaves the engine unchanged exactly
  when its argument is null or is the room already selected; and the removal of the
  selected room clears the selection.
\<close>

theorem selection_in_rooms_of_registered_selections:
  assumes "reachable_by selects_registered a"
  shows "selection_in_rooms a
       \<and> (selectRoom room a = a \<longleftrightarrow> room = None \<or> room = currentRoom (state a))
       \<and> (findRoom k a = Some r \<and> currentRoom (state a) = Some r \<longrightarrow>
            currentRoom (state (roomRemoved k a)) = None)"
proof -
  have 1: "selection_in_rooms a" using assms by (rule reachable_selection)
  have 2: "selectRoom room a = a \<longleftrightarrow> room = None \<or> room = currentRoom (state a)"
  proof (cases room)
    case None
    then show ?thesis by (simp add: selectRoom_def)
  next
    case (Some r)
    show ?thesis
    proof (cases "currentRoom (state a) = Some r")
      case True
      with Some show ?thesis by (simp add: selectRoom_def)
    next
      case False
      have "currentRoom (state (selectRoom (Some r) a)) = Some r"
        by (simp add: selectRoom_registry)
      with False have "selectRoom (Some r) a \<noteq> a" by metis
      moreover from False have "Some r \<noteq> currentRoom (state a)" by metis
      ultimately show ?thesis unfolding Some by simp
    qed
  qed
  have 3: "findRoom k a = Some r \<and> currentRoom (state a) = Some r \<longrightarrow>
            currentRoom (state (roomRemoved k a)) = None"
    by (simp add: roomRemoved_eq)
  from 1 2 3 show ?thesis by blast
qed

theorem selection_in_rooms_of_registered_selections_witness:
  "reachable_by selects_registered (run room_open init_app)
   \<and> selection_in_rooms (run room_open init_app)
   \<and> currentRoom (state (run room_open init_app)) = Some 0
   \<and> selectRoom (Some 0) (run room_open init_app) = run room_open init_app
   \<and> findRoom ''r1'' (run room_open init_app) = Some 0
   \<and> currentRoom (state (roomRemoved ''r1'' (run room_open init_app))) = None"
proof -
  have "admissible selects_registered room_open init_app"
    by (simp add: room_open_def eval_defs)
  then have r: "reachable_by selects_registered (run room_open init_app)"
    by (rule reachable_run[OF reachable_by.initial])
  from r selection_in_rooms_of_registered_selections[OF r, of "Some 0" "''r1''" 0]
  show ?thesis by (simp add: room_open_def eval_defs)
qed

subsection \<open>C2: fetches of an author's nickname\<close>




subsection \<open>C3: coalescing of notifications\<close>

text \<open>
  C3: however many mutations, each followed by a call of \<^verbatim>\<open>updateListeners\<close>,
  happen within one tick, the registered listener is invoked once at the end of the
  tick, and the snapshot it is given is the state after all the mutations. The engine
  is taken in a state where the queue and \<open>pendingUpdate\<close> agree, which holds in every
  reachable state (\<open>reachable_coalesced\<close>).
\<close>

theorem notifications_coalesce:
  assumes "coalesced a" and "listener a = Some l" and "fs \<noteq> []"
  shows "calls (tick (sync_work fs a)) = calls a @ [(l, fold (\<lambda>f st. f st) fs (state a))]
       \<and> getState (tick (sync_work fs a)) = fold (\<lambda>f st. f st) fs (state a)
       \<and> \<not> pendingUpdate (tick (sync_work fs a))
       \<and> microtasks (tick (sync_work fs a)) = []"
proof -
  let ?b = "sync_work fs a"
  from sync_work_coalesced[OF assms(1), of fs] assms(3)
  have c: "coalesced ?b" and p: "pendingUpdate ?b" by simp_all
  have l: "listener ?b = Some l" using assms(2) by (simp add: sync_work_frame)
  show ?thesis
    by (simp add: tick_pending[OF c p] assms(2) sync_work_frame getState_def)
qed

text \<open>
  Three mutations in one tick, and the same through the engine's own methods: four
  calls of \<^verbatim>\<open>updateListeners\<close>, from \<^verbatim>\<open>listen\<close>, \<^verbatim>\<open>setNickname\<close> twice and
  \<^verbatim>\<open>displayError\<close>, give one invocation.
\<close>

theorem notifications_coalesce_witness:
  "coalesced (listen 7 init_app)
   \<and> listener (listen 7 init_app) = Some 7
   \<and> calls (tick (sync_work [\<lambda>st. st\<lparr>nickname := ''ann''\<rparr>, \<lambda>st. st\<lparr>latestError := ''failed''\<rparr>,
                             \<lambda>st. st\<lparr>nickname := ''bob''\<rparr>] (listen 7 init_app)))
     = [(7, \<lparr>nickname = ''bob'', rooms = [], currentRoom = None, latestError = ''failed''\<rparr>)]
   \<and> calls (run [Listen 7, SetNickname ''ann'', WindowError ''failed'', SetNickname ''bob'',
                  Microtask] init_app)
     = [(7, \<lparr>nickname = ''bob'', rooms = [], currentRoom = None, latestError = ''failed''\<rparr>)]"
  using notifications_coalesce[of "listen 7 init_app" 7
     "[\<lambda>st. st\<lparr>nickname := ''ann''\<rparr>, \<lambda>st. st\<lparr>latestError := ''failed''\<rparr>, \<lambda>st. st\<lparr>nickname := ''bob''\<rparr>]"]
  by (simp add: coalesced_def eval_defs)

subsection \<open>C4: failures of calls on the store\<close>




subsection \<open>C5: idempotent ingestion\<close>



subsection \<open>C6: one room for each id\<close>

text \<open>
  C6: in every reachable state no two rooms of the room list have the same id; the
  \<^verbatim>\<open>child_added\<close> handler appends a room only when \<^verbatim>\<open>findRoom\<close> finds none with
  the id; and after two deliveries of the same id the list has exactly one room with it.
\<close>

theorem one_room_per_id:
  assumes "reachable_by P a"
  shows "distinct (map (\<lambda>r. rid (heap a ! r)) (rooms (state a)))
       \<and> rooms (state (roomAdded k info a)) =
           (if findRoom k a = None then rooms (state a) @ [length (heap a)] else rooms (state a))
       \<and> rooms (state (roomAdded k info' (roomAdded k info a))) = rooms (state (roomAdded k info a))
       \<and> length (filter (\<lambda>r. rid (heap (roomAdded k info' (roomAdded k info a)) ! r) = k)
            (rooms (state (roomAdded k info' (roomAdded k info a))))) = 1"
proof -
  let ?b = "roomAdded k info a"
  let ?c = "roomAdded k info' ?b"
  have ok: "registry_ok a" using assms by (rule reachable_registry_ok)
  then have 1: "distinct (map (\<lambda>r. rid (heap a ! r)) (rooms (state a)))"
    by (simp add: registry_ok_def)
  have 2: "rooms (state ?b) =
           (if findRoom k a = None then rooms (state a) @ [length (heap a)] else rooms (state a))"
    by (auto simp: roomAdded_def updateListeners_def)
  obtain r where r: "findRoom k ?b = Some r" using findRoom_roomAdded by blast
  then have c: "?c = updateListeners ?b" by (simp add: roomAdded_def[of k info' ?b])
  then have 3: "rooms (state ?c) = rooms (state ?b)" and h: "heap ?c = heap ?b"
    by (simp_all add: updateListeners_def)
  have okb: "registry_ok ?b" using ok by (rule registry_ok_roomAdded)
  from r have "r \<in> set (rooms (state ?b))" and "rid (heap ?b ! r) = k"
    by (auto simp: findRoom_def dest: findRoom_loop_Some)
  with okb count_distinct_map[of "\<lambda>r. rid (heap ?b ! r)" "rooms (state ?b)" r]
  have "length (filter (\<lambda>x. rid (heap ?b ! x) = k) (rooms (state ?b))) = 1"
    by (simp add: registry_ok_def)
  then have 4: "length (filter (\<lambda>r. rid (heap ?c ! r) = k) (rooms (state ?c))) = 1"
    by (simp only: 3 h)
  from 1 2 3 4 show ?thesis by blast
qed

theorem one_room_per_id_witness:
  "reachable_by any_event init_app
   \<and> rooms (state (roomAdded ''r1'' \<lparr>rd_private = True, rd_name = ''other''\<rparr>
            (roomAdded ''r1'' general init_app))) = [0]
   \<and> map rid (heap (roomAdded ''r1'' \<lparr>rd_private = True, rd_name = ''other''\<rparr>
            (roomAdded ''r1'' general init_app))) = [''r1'']
   \<and> map name (heap (roomAdded ''r1'' \<lparr>rd_private = True, rd_name = ''other''\<rparr>
            (roomAdded ''r1'' general init_app))) = [''general'']"
  using reachable_by.initial[of any_event]
    one_room_per_id[where a = init_app and P = any_event and k = "''r1''" and info = general
      and info' = "\<lparr>rd_private = True, rd_name = ''other''\<rparr>", OF reachable_by.initial]
  by (simp add: eval_defs)

subsection \<open>C7: sending a message while signed out\<close>

text \<open>
  C7: with nobody signed in, \<^verbatim>\<open>sendMessage\<close> raises the error of
  \<^verbatim>\<open>ensureSignedIn\<close> to its caller and issues no call on the store.
\<close>

theorem sendMessage_signed_out:
  assumes "\<not> truthy (uid a)"
  shows "sendMessage r body a = Inl (Error ''Must be siged in to send a message.'')
         \<and> handle (SendMessage r body) a = (Some (Error ''Must be siged in to send a message.''), a)
         \<and> requests (apply_event (SendMessage r body) a) = requests a"
  using assms by (simp add: sendMessage_def ensureSignedIn_def apply_event_def finish_def)

theorem sendMessage_signed_out_witness:
  "\<not> truthy (uid (run signed_out_room init_app))
   \<and> handle (SendMessage 0 ''hi'') (run signed_out_room init_app)
     = (Some (Error ''Must be siged in to send a message.''), run signed_out_room init_app)
   \<and> requests (run (signed_out_room @ [SendMessage 0 ''hi'']) init_app) = []"
  using sendMessage_signed_out[of "run signed_out_room init_app" 0 "''hi''"]
  by (simp add: signed_out_room_def eval_defs)

subsection \<open>C8: the membership write of ensureMember\<close>




subsection \<open>C9: the removal of a room does not notify\<close>

text \<open>
  C9: when the id of a \<^verbatim>\<open>child_removed\<close> notification is that of a listed room, the
  handler clears the selection if that room was selected and splices the room out of
  the list, and the loop returns from the handler before \<^verbatim>\<open>updateListeners\<close> is
  reached: the flag and the queue are as before, and if nothing was scheduled the end
  of the tick invokes no listener.
\<close>

theorem removed_room_is_spliced_without_notification:
  assumes "findRoom k a = Some r"
  shows "roomRemoved k a =
           a\<lparr>state := (state a)\<lparr>currentRoom :=
                (if currentRoom (state a) = Some r then None else currentRoom (state a)),
              rooms := remove1 r (rooms (state a))\<rparr>\<rparr>
         \<and> pendingUpdate (roomRemoved k a) = pendingUpdate a
         \<and> microtasks (roomRemoved k a) = microtasks a
         \<and> (microtasks a = [] \<longrightarrow> calls (tick (roomRemoved k a)) = calls a)"
proof -
  from assms have "r \<in> set (rooms (state a))"
    by (auto simp: findRoom_def dest: findRoom_loop_Some)
  then have e: "roomRemoved k a =
           a\<lparr>state := (state a)\<lparr>currentRoom :=
                (if currentRoom (state a) = Some r then None else currentRoom (state a)),
              rooms := remove1 r (rooms (state a))\<rparr>\<rparr>"
    using assms by (simp add: roomRemoved_def removeLoop_found Let_def)
  show ?thesis
    by (rule conjI[OF e]) (simp add: e tick_def)
qed

theorem removed_room_is_spliced_without_notification_witness:
  "findRoom ''r1'' (run signed_out_room init_app) = Some 0
   \<and> microtasks (run signed_out_room init_app) = []
   \<and> rooms (state (roomRemoved ''r1'' (run signed_out_room init_app))) = []
   \<and> \<not> pendingUpdate (roomRemoved ''r1'' (run signed_out_room init_app))
   \<and> calls (tick (roomRemoved ''r1'' (run signed_out_room init_app)))
       = [(7, \<lparr>nickname = ''anonymous'', rooms = [0], currentRoom = None, latestError = ''''\<rparr>)]"
  using removed_room_is_spliced_without_notification[of "''r1''" "run signed_out_room init_app" 0]
  by (simp add: signed_out_room_def eval_defs)

subsection \<open>C10: a message of an author without a membership record\<close>

text \<open>
  C10: for a new message whose author has no nickname in the cache, \<^verbatim>\<open>ensureMessage\<close>
  fetches the author's membership record; when the store answers that there is no such
  record, the callback raises a \<^verbatim>\<open>TypeError\<close> and leaves the engine as it was.
\<close>

theorem absent_author_record_raises:
  assumes "r < length (heap a)" and "\<not> seen (heap a ! r) mid"
    and "cached (heap a ! r) (msg_from m) = None"
  shows "requests (ensureMessage r mid m a) =
           requests a @
             [\<lparr>req_ref = getMemberRef a (rid (heap a ! r)) (Some (msg_from m)), req_op = OnceOp,
               req_cont = AuthorFetched r (length (messages (heap a ! r)))\<rparr>]
       \<and> handle (Settled (length (requests a)) (Resolved None)) (ensureMessage r mid m a) =
           (Some TypeError, (ensureMessage r mid m a)\<lparr>settled := length (requests a) # settled a\<rparr>)"
proof -
  have c: "cached ((heap a ! r)\<lparr>messages := messages (heap a ! r) @ [m],
              hasMessage := (hasMessage (heap a ! r))(mid \<mapsto> True)\<rparr>) (msg_from m) = None"
    using assms(3) by (simp add: cached_def)
  have e: "ensureMessage r mid m a =
       issue (getMemberRef a (rid (heap a ! r)) (Some (msg_from m))) OnceOp
         (AuthorFetched r (length (messages (heap a ! r)))) (addMessage r mid m a)"
    using assms(1,2) c
    by (simp add: ensureMessage_def Let_def addMessage_def update_room_def getMemberRef_def)
  show ?thesis
    unfolding e
    by (simp add: issue_def addMessage_def update_room_def finish_def authorFetched_def)
qed

theorem absent_author_record_raises_witness:
  "0 < length (heap (run room_open init_app))
   \<and> \<not> seen (heap (run room_open init_app) ! 0) ''m1''
   \<and> cached (heap (run room_open init_app) ! 0) (msg_from hello) = None
   \<and> length (requests (run room_open init_app)) = 1
   \<and> fst (handle (Settled 1 (Resolved None)) (ensureMessage 0 ''m1'' hello (run room_open init_app)))
       = Some TypeError
   \<and> messages (heap (snd (handle (Settled 1 (Resolved None))
        (ensureMessage 0 ''m1'' hello (run room_open init_app)))) ! 0) = [hello]"
  using absent_author_record_raises[of 0 "run room_open init_app" "''m1''" hello]
  by (simp add: room_open_def eval_defs)

end
